theory Spec2Isabelle
  imports Main "HOL-Library.Sublist"
begin

section \<open>JavaScript values and strings\<close>

text \<open>
  A destructured option of \<open>fetchNews\<close> or \<open>_generateCacheKey\<close> is either missing
  (\<open>undefined\<close>), \<open>null\<close>, or a string. Strings are lists of characters with code unit
  below 256 (Latin-1), which is what \<open>toLowerCase\<close> and \<open>trim\<close> are modelled on.
\<close>

datatype jsarg = Undefined | Null | Str string

datatype js_error = TypeError | Error string

text \<open>A destructuring default \<open>{ x = d }\<close> replaces \<open>undefined\<close> only, never \<open>null\<close>.\<close>

fun or_default :: "jsarg \<Rightarrow> jsarg \<Rightarrow> jsarg" where
  "or_default d Undefined = d"
| "or_default d v = v"

definition lower_char :: "char \<Rightarrow> char" where
  "lower_char c =
     (let n = (of_char c :: nat)
      in if (65 \<le> n \<and> n \<le> 90) \<or> (192 \<le> n \<and> n \<le> 222 \<and> n \<noteq> 215)
         then char_of (n + 32) else c)"

definition toLowerCase :: "string \<Rightarrow> string" where
  "toLowerCase s = map lower_char s"

definition is_space :: "char \<Rightarrow> bool" where
  "is_space c = ((of_char c :: nat) \<in> {9, 10, 11, 12, 13, 32, 160})"

definition trim :: "string \<Rightarrow> string" where
  "trim s = rev (dropWhile is_space (rev (dropWhile is_space s)))"

text \<open>\<open>s.includes(t)\<close>: \<open>t\<close> occurs in \<open>s\<close> at some position.\<close>

fun starts_with :: "string \<Rightarrow> string \<Rightarrow> bool" where
  "starts_with s [] = True"
| "starts_with [] (y # ys) = False"
| "starts_with (x # xs) (y # ys) = (x = y \<and> starts_with xs ys)"

fun js_includes :: "string \<Rightarrow> string \<Rightarrow> bool" where
  "js_includes [] t = (t = [])"
| "js_includes (x # xs) t = (starts_with (x # xs) t \<or> js_includes xs t)"

section \<open>The news service: cache keys, request parameters, cache\<close>

text \<open>
  What a property lookup on the object literal \<open>categoryMap\<close> yields: the string of one of
  its seven own properties, or a member that the literal inherits from \<open>Object.prototype\<close>
  (a built-in function, or for \<open>__proto__\<close> the prototype object itself). An inherited member
  is named by its property; appended to the query parameters it is converted to a string
  that is not a category slug.
\<close>

datatype js_member = Text string | Inherited string

text \<open>The property names of \<open>Object.prototype\<close> in the ECMAScript standard.\<close>

definition object_prototype_names :: "string list" where
  "object_prototype_names =
     [''constructor'', ''hasOwnProperty'', ''isPrototypeOf'', ''propertyIsEnumerable'',
      ''toLocaleString'', ''toString'', ''valueOf'', ''__proto__'', ''__defineGetter__'',
      ''__defineSetter__'', ''__lookupGetter__'', ''__lookupSetter__'']"

definition own_categoryMap :: "string \<rightharpoonup> string" where
  "own_categoryMap =
     [''General'' \<mapsto> ''general'',
      ''Technology'' \<mapsto> ''technology'',
      ''Sports'' \<mapsto> ''sports'',
      ''Entertainment'' \<mapsto> ''entertainment'',
      ''Business'' \<mapsto> ''business'',
      ''Health'' \<mapsto> ''health'',
      ''Science'' \<mapsto> ''science'']"

text \<open>\<open>categoryMap[category]\<close>: own properties first, then the prototype; \<open>None\<close> is \<open>undefined\<close>.\<close>

definition categoryMap :: "string \<rightharpoonup> js_member" where
  "categoryMap category =
     (case own_categoryMap category of
        Some slug \<Rightarrow> Some (Text slug)
      | None \<Rightarrow>
          if category \<in> set object_prototype_names then Some (Inherited category) else None)"

text \<open>
  \<open>_mapCategoryToBackend\<close>: \<open>categoryMap[category] || category.toLowerCase()\<close>. Every value
  that the lookup finds is truthy (a non-empty string, a function or an object).
\<close>

definition mapCategoryToBackend :: "string \<Rightarrow> js_member" where
  "mapCategoryToBackend category =
     (case categoryMap category of Some v \<Rightarrow> v | None \<Rightarrow> Text (toLowerCase category))"

text \<open>
  \<open>_generateCacheKey\<close>: the defaults \<open>'all'\<close> and \<open>''\<close> apply to \<open>undefined\<close>;
  calling \<open>toLowerCase\<close> on \<open>null\<close> throws a TypeError.
\<close>

definition generateCacheKey :: "jsarg \<Rightarrow> jsarg \<Rightarrow> js_error + string" where
  "generateCacheKey category query =
     (case or_default (Str ''all'') category of
        Str c \<Rightarrow>
          (case or_default (Str '''') query of
             Str q \<Rightarrow> Inr (toLowerCase c @ ''-'' @ trim (toLowerCase q))
           | _ \<Rightarrow> Inl TypeError)
      | _ \<Rightarrow> Inl TypeError)"

text \<open>
  The \<open>URLSearchParams\<close> built by \<open>_performRequest\<close>, as the list of appended pairs.
  \<open>category && category !== 'All'\<close> and \<open>query && query.trim()\<close> are the two guards.
\<close>

definition request_params :: "jsarg \<Rightarrow> jsarg \<Rightarrow> (string \<times> js_member) list" where
  "request_params category query =
     (case category of
        Str c \<Rightarrow> if c \<noteq> [] \<and> c \<noteq> ''All'' then [(''category'', mapCategoryToBackend c)] else []
      | _ \<Rightarrow> [])
     @
     (case query of
        Str q \<Rightarrow> if q \<noteq> [] \<and> trim q \<noteq> [] then [(''q'', Text (trim q))] else []
      | _ \<Rightarrow> [])"

text \<open>
  The response payload (\<open>data.data\<close> of the backend's JSON) and a cache entry. A property
  that the object does not carry is \<open>None\<close>.
\<close>

record 'a response =
  resp_articles :: "'a list option"
  totalResults :: "int option"
  page :: "int option"
  pageSize :: "int option"
  fromCache :: "bool option"

record 'a cache_entry =
  data :: "'a response"
  timestamp :: int

datatype 'a outcome = Fulfilled "'a response" | Rejected js_error

text \<open>
  The service object. \<open>requests\<close> logs every invocation of \<open>_performRequest\<close> (cache key and
  query parameters); the position in the log names the promise it returned. \<open>settled\<close> holds
  the outcome of each such promise once it has settled, \<open>awaiting\<close> the \<open>fetchNews\<close>
  activations suspended at \<open>await requestPromise\<close> (their \<open>cacheKey\<close> and \<open>useCache\<close>).
\<close>

record 'a service =
  cache :: "string \<rightharpoonup> 'a cache_entry"
  ongoingRequests :: "string \<rightharpoonup> nat"
  requests :: "(string \<times> (string \<times> js_member) list) list"
  settled :: "nat \<rightharpoonup> 'a outcome"
  awaiting :: "nat \<rightharpoonup> (string \<times> bool)"

definition new_service :: "'a service" where
  "new_service = \<lparr>cache = Map.empty, ongoingRequests = Map.empty, requests = [],
                  settled = Map.empty, awaiting = Map.empty\<rparr>"

definition cacheTimeout :: int where
  "cacheTimeout = 15 * 60 * 1000"

text \<open>Every function that reads \<open>Date.now()\<close> takes the value read as \<open>now\<close>.\<close>

definition isCacheValid :: "'a cache_entry option \<Rightarrow> int \<Rightarrow> bool" where
  "isCacheValid cacheEntry now =
     (case cacheEntry of None \<Rightarrow> False | Some e \<Rightarrow> now - timestamp e < cacheTimeout)"

definition getFromCache :: "string \<Rightarrow> int \<Rightarrow> 'a service \<Rightarrow> 'a response option \<times> 'a service" where
  "getFromCache cacheKey now s =
     (case cache s cacheKey of
        None \<Rightarrow> (None, s)
      | Some e \<Rightarrow>
          if isCacheValid (Some e) now then (Some ((data e)\<lparr>fromCache := Some True\<rparr>), s)
          else (None, s\<lparr>cache := (cache s)(cacheKey := None)\<rparr>))"

definition setCache :: "string \<Rightarrow> 'a response \<Rightarrow> int \<Rightarrow> 'a service \<Rightarrow> 'a service" where
  "setCache cacheKey d now s =
     s\<lparr>cache := (cache s)(cacheKey \<mapsto> \<lparr>data = d\<lparr>fromCache := Some False\<rparr>, timestamp = now\<rparr>)\<rparr>"

definition cleanupCache :: "int \<Rightarrow> 'a service \<Rightarrow> 'a service" where
  "cleanupCache now s =
     s\<lparr>cache := (\<lambda>key. case cache s key of
                        None \<Rightarrow> None
                      | Some e \<Rightarrow> if now - timestamp e \<ge> cacheTimeout then None else Some e)\<rparr>"

definition clearCache :: "'a service \<Rightarrow> 'a service" where
  "clearCache s = s\<lparr>cache := Map.empty, ongoingRequests := Map.empty\<rparr>"

definition isCached :: "jsarg \<Rightarrow> jsarg \<Rightarrow> int \<Rightarrow> 'a service \<Rightarrow> js_error + bool" where
  "isCached category query now s =
     (case generateCacheKey category query of
        Inl e \<Rightarrow> Inl e
      | Inr cacheKey \<Rightarrow> Inr (isCacheValid (cache s cacheKey) now))"

section \<open>\<open>fetchNews\<close> of the service, split at its \<open>await\<close>\<close>

text \<open>
  What the synchronous part of a \<open>fetchNews\<close> call hands back: it threw (the returned promise
  is rejected), it returned cached data, it returned the promise registered by an earlier
  call, or it started its own request and suspended.
\<close>

datatype 'a reply = Threw js_error | FromCache "'a response" | Joined nat | Started nat

definition fetchNews ::
  "jsarg \<Rightarrow> jsarg \<Rightarrow> bool \<Rightarrow> int \<Rightarrow> int \<Rightarrow> 'a service \<Rightarrow> 'a reply \<times> 'a service" where
  "fetchNews category0 query0 useCache now_cleanup now_read s =
     (let category = or_default Null category0;
          query = or_default Null query0;
          s1 = cleanupCache now_cleanup s
      in case generateCacheKey category query of
           Inl e \<Rightarrow> (Threw e, s1)
         | Inr cacheKey \<Rightarrow>
             (case (if useCache then getFromCache cacheKey now_read s1 else (None, s1)) of
                (Some cachedData, s2) \<Rightarrow> (FromCache cachedData, s2)
              | (None, s2) \<Rightarrow>
                  (case ongoingRequests s2 cacheKey of
                     Some p \<Rightarrow> (Joined p, s2)
                   | None \<Rightarrow>
                       (let p = length (requests s2)
                        in (Started p,
                            s2\<lparr>requests := requests s2 @ [(cacheKey, request_params category query)],
                               ongoingRequests := (ongoingRequests s2)(cacheKey \<mapsto> p),
                               awaiting := (awaiting s2)(p \<mapsto> (cacheKey, useCache))\<rparr>)))))"

text \<open>The promise returned by \<open>_performRequest\<close> settles (the network answers or fails).\<close>

definition settle :: "nat \<Rightarrow> 'a outcome \<Rightarrow> 'a service \<Rightarrow> 'a service" where
  "settle p out s =
     (if p < length (requests s) \<and> settled s p = None
      then s\<lparr>settled := (settled s)(p \<mapsto> out)\<rparr> else s)"

text \<open>
  The rest of the initiating call after \<open>await requestPromise\<close>: cache the result when
  \<open>useCache\<close>, then the \<open>finally\<close> block; the value is what the call resolves or rejects with.
\<close>

definition resume :: "nat \<Rightarrow> int \<Rightarrow> 'a service \<Rightarrow> 'a outcome option \<times> 'a service" where
  "resume p now s =
     (case awaiting s p of
        None \<Rightarrow> (None, s)
      | Some (cacheKey, useCache) \<Rightarrow>
          (case settled s p of
             None \<Rightarrow> (None, s)
           | Some out \<Rightarrow>
               (let s1 = (case out of
                            Fulfilled result \<Rightarrow> if useCache then setCache cacheKey result now s else s
                          | Rejected e \<Rightarrow> s)
                in (Some out,
                    s1\<lparr>ongoingRequests := (ongoingRequests s1)(cacheKey := None),
                       awaiting := (awaiting s1)(p := None)\<rparr>))))"

section \<open>Interleavings of calls on the shared service\<close>

text \<open>
  The runtime is single-threaded: between two suspension points a call runs alone. An
  execution of the singleton service is therefore a sequence of atomic steps: the
  synchronous part of a \<open>fetchNews\<close> call (with the two clock readings it makes), a network
  promise settling, an initiating call resuming after its \<open>await\<close>, and \<open>clearCache\<close>.
\<close>

datatype 'a event =
    Fetch jsarg jsarg bool int int
  | Settle nat "'a outcome"
  | Resume nat int
  | ClearCache

fun step :: "'a event \<Rightarrow> 'a service \<Rightarrow> 'a service" where
  "step (Fetch category query useCache now_cleanup now_read) s =
     snd (fetchNews category query useCache now_cleanup now_read s)"
| "step (Settle p out) s = settle p out s"
| "step (Resume p now) s = snd (resume p now s)"
| "step ClearCache s = clearCache s"

fun run :: "'a event list \<Rightarrow> 'a service \<Rightarrow> 'a service" where
  "run [] s = s"
| "run (e # es) s = run es (step e s)"

fun is_clear :: "'a event \<Rightarrow> bool" where
  "is_clear ClearCache = True"
| "is_clear e = False"




text \<open>
  The state in which \<open>fetchNews\<close> consults \<open>ongoingRequests\<close>: after the sweep and, when
  \<open>useCache\<close>, after the cache read.
\<close>

definition checked ::
  "string \<Rightarrow> bool \<Rightarrow> int \<Rightarrow> int \<Rightarrow> 'a service \<Rightarrow> 'a response option \<times> 'a service" where
  "checked k u t1 t2 s =
     (if u then getFromCache k t2 (cleanupCache t1 s) else (None, cleanupCache t1 s))"

text \<open>
  The requests for a cache key that are pending: issued, and the call that initiated them
  has not resumed yet.
\<close>

definition pending_for :: "'a service \<Rightarrow> string \<Rightarrow> nat list" where
  "pending_for s k =
     filter (\<lambda>p. case awaiting s p of None \<Rightarrow> False | Some (k', u) \<Rightarrow> k' = k)
       [0..<length (requests s)]"

text \<open>An execution in which \<open>clearCache\<close> is only called while no request for the key is pending.\<close>

fun clear_only_idle :: "string \<Rightarrow> 'a event list \<Rightarrow> 'a service \<Rightarrow> bool" where
  "clear_only_idle k [] s = True"
| "clear_only_idle k (e # es) s =
     ((if is_clear e then pending_for s k = [] else True) \<and> clear_only_idle k es (step e s))"

text \<open>
  What such an execution maintains for the key: an unsettled request for it is the one
  registered and its initiating call is suspended, a suspended initiating call for it is
  the one registered, a suspended initiating call for it with \<open>useCache\<close> means the key has
  no cache entry, and only issued requests settle or have a suspended call.
\<close>

definition dedup_inv :: "string \<Rightarrow> 'a service \<Rightarrow> bool" where
  "dedup_inv k s \<longleftrightarrow>
     (\<forall>p. p < length (requests s) \<and> fst (requests s ! p) = k \<and> settled s p = None
          \<longrightarrow> ongoingRequests s k = Some p \<and> (\<exists>u. awaiting s p = Some (k, u)))
   \<and> (\<forall>p u. awaiting s p = Some (k, u) \<longrightarrow> ongoingRequests s k = Some p)
   \<and> (\<forall>p. awaiting s p = Some (k, True) \<longrightarrow> cache s k = None)
   \<and> (\<forall>p. settled s p \<noteq> None \<longrightarrow> p < length (requests s))
   \<and> (\<forall>p. awaiting s p \<noteq> None \<longrightarrow> p < length (requests s))"

section \<open>The aggregation hook \<open>useOptimizedNews\<close>\<close>

datatype error_type = RATE_LIMIT | AUTH_ERROR | SERVER_ERROR | NETWORK_ERROR | UNKNOWN_ERROR

definition getErrorType :: "string \<Rightarrow> error_type" where
  "getErrorType errorMessage =
     (if js_includes errorMessage ''Rate limit exceeded'' \<or> js_includes errorMessage ''429''
      then RATE_LIMIT
      else if js_includes errorMessage ''authentication failed'' \<or> js_includes errorMessage ''401''
      then AUTH_ERROR
      else if js_includes errorMessage ''temporarily unavailable'' \<or> js_includes errorMessage ''500''
      then SERVER_ERROR
      else if js_includes errorMessage ''Unable to connect'' \<or> js_includes errorMessage ''fetch''
      then NETWORK_ERROR
      else UNKNOWN_ERROR)"

text \<open>
  The hook's state: its \<open>useState\<close> cells, the debounced search term, and the ref
  \<open>lastFetchParams\<close>. A \<open>params\<close> object is compared by identity (\<open>===\<close>) on success and by
  its \<open>category\<close> and \<open>query\<close> on failure, so the ref holds the object's identity with both
  fields; \<open>allocated\<close> counts the objects created, which gives each a fresh identity.
\<close>

record 'a hook =
  articles :: "'a list"
  loading :: bool
  error :: "string option"
  errorType :: "error_type option"
  retryCount :: nat
  isRetrying :: bool
  selectedCategory :: string
  searchQuery :: string
  debouncedSearchTerm :: string
  lastFetchParams :: "(nat \<times> string \<times> string) option"
  allocated :: nat

definition initial_hook :: "string \<Rightarrow> string \<Rightarrow> 'a hook" where
  "initial_hook initialCategory initialSearchQuery =
     \<lparr>articles = [], loading = True, error = None, errorType = None, retryCount = 0,
      isRetrying = False, selectedCategory = initialCategory, searchQuery = initialSearchQuery,
      debouncedSearchTerm = initialSearchQuery, lastFetchParams = None, allocated = 0\<rparr>"

text \<open>
  One activation of the hook's \<open>fetchNews\<close>: its arguments, the identity of its \<open>params\<close>
  object, and the \<open>articles.length\<close> of the render whose callback is running (the callback
  closes over that number; it does not read the state again when the request fails).
\<close>

record fetch_call =
  params_id :: nat
  call_category :: string
  call_query :: string
  isRetry :: bool
  seen_length :: nat

datatype 'a fetched = Data "'a response" | Failure string

text \<open>\<open>x.articles || []\<close>.\<close>

fun or_empty :: "'a list option \<Rightarrow> 'a list" where
  "or_empty None = []"
| "or_empty (Some xs) = xs"

text \<open>
  The part of \<open>fetchNews\<close> before \<open>await newsService.fetchNews(params)\<close>. \<open>cachedData\<close> is
  what \<open>getCachedDataIfAvailable\<close> returned. The abort controller is not modelled: its
  signal is never handed to the request.
\<close>

definition fetchNews_hook_begin ::
  "string \<Rightarrow> string \<Rightarrow> bool \<Rightarrow> nat \<Rightarrow> 'a response option \<Rightarrow> 'a hook \<Rightarrow> fetch_call \<times> 'a hook" where
  "fetchNews_hook_begin category query is_retry seen cachedData h =
     (let h1 = (case cachedData of
                  Some d \<Rightarrow>
                    if \<not> is_retry
                    then h\<lparr>articles := or_empty (resp_articles d), loading := False,
                           error := None, errorType := None\<rparr>
                    else h
                | None \<Rightarrow> h);
          h2 = (if is_retry then h1\<lparr>isRetrying := True\<rparr>
                else if cachedData = None then h1\<lparr>loading := True\<rparr>
                else h1);
          h3 = h2\<lparr>error := None, errorType := None\<rparr>
      in (\<lparr>params_id = allocated h, call_category = category, call_query = query,
           isRetry = is_retry, seen_length = seen\<rparr>,
          h3\<lparr>lastFetchParams := Some (allocated h, category, query),
             allocated := Suc (allocated h)\<rparr>))"

text \<open>\<open>lastFetchParams.current === params\<close>.\<close>

definition is_latest_object :: "fetch_call \<Rightarrow> 'a hook \<Rightarrow> bool" where
  "is_latest_object call h =
     (case lastFetchParams h of None \<Rightarrow> False | Some (i, c, q) \<Rightarrow> i = params_id call)"

text \<open>
  \<open>lastFetchParams.current && lastFetchParams.current.category === category &&
  lastFetchParams.current.query === query\<close>.
\<close>

definition matches_latest :: "fetch_call \<Rightarrow> 'a hook \<Rightarrow> bool" where
  "matches_latest call h =
     (case lastFetchParams h of
        None \<Rightarrow> False
      | Some (i, c, q) \<Rightarrow> c = call_category call \<and> q = call_query call)"

definition finally_block :: "fetch_call \<Rightarrow> 'a hook \<Rightarrow> 'a hook" where
  "finally_block call h =
     (if matches_latest call h then h\<lparr>loading := False, isRetrying := False\<rparr> else h)"

text \<open>The rest of \<open>fetchNews\<close> once the awaited promise has settled.\<close>

fun fetchNews_hook_settled :: "fetch_call \<Rightarrow> 'a fetched \<Rightarrow> 'a hook \<Rightarrow> 'a hook" where
  "fetchNews_hook_settled call (Data d) h =
     finally_block call
       (if is_latest_object call h
        then h\<lparr>articles := or_empty (resp_articles d), retryCount := 0\<rparr>
        else h)"
| "fetchNews_hook_settled call (Failure msg) h =
     finally_block call
       (if matches_latest call h
        then (let h1 = h\<lparr>error := Some msg, errorType := Some (getErrorType msg)\<rparr>
              in if \<not> isRetry call \<or> seen_length call = 0 then h1\<lparr>articles := []\<rparr> else h1)
        else h)"

text \<open>
  \<open>handleRetry\<close>: the new retry count, and whether the retry is issued at once (awaited)
  or from a timer after \<open>delay\<close> milliseconds.
\<close>

datatype retry_plan = Immediately | After nat

fun delay_ms :: "retry_plan \<Rightarrow> nat" where
  "delay_ms Immediately = 0"
| "delay_ms (After d) = d"

definition handleRetry :: "'a hook \<Rightarrow> retry_plan \<times> 'a hook" where
  "handleRetry h =
     (let newRetryCount = retryCount h + 1;
          h1 = h\<lparr>retryCount := newRetryCount\<rparr>
      in if errorType h = Some RATE_LIMIT \<and> newRetryCount > 1
         then (After (min (1000 * 2 ^ (newRetryCount - 1)) 30000), h1)
         else (Immediately, h1))"

section \<open>Cache keys\<close>

text \<open>
  C6. Deriving the cache key inside \<open>fetchNews\<close> does not always succeed: \<open>fetchNews\<close>
  turns an absent \<open>category\<close> or \<open>query\<close> into \<open>null\<close>, the defaults \<open>'all'\<close> and \<open>''\<close> of
  \<open>_generateCacheKey\<close> replace \<open>undefined\<close> only, and \<open>toLowerCase\<close> is then called on
  \<open>null\<close>. So a call that leaves out either option throws a TypeError, whatever the
  other option, \<open>useCache\<close>, the clock and the service state are. Called directly with absent
  options, \<open>_generateCacheKey\<close> does yield \<open>all-\<close>, and with two strings the key is the
  lower-cased category, a dash, and the lower-cased, trimmed query.
\<close>

theorem fetchNews_absent_option_throws:
  "fst (fetchNews Undefined Undefined useCache t1 t2 s) = Threw TypeError
   \<and> fst (fetchNews (Str c) Undefined useCache t1 t2 s) = Threw TypeError
   \<and> fst (fetchNews Undefined (Str q) useCache t1 t2 s) = Threw TypeError
   \<and> generateCacheKey Undefined Undefined = Inr ''all-''
   \<and> generateCacheKey (Str c) (Str q) = Inr (toLowerCase c @ ''-'' @ trim (toLowerCase q))"
  by (simp add: fetchNews_def generateCacheKey_def toLowerCase_def lower_char_def trim_def)

section \<open>Request parameters\<close>

lemma mapCategoryToBackend_table:
  "mapCategoryToBackend ''General'' = Text ''general''"
  "mapCategoryToBackend ''Technology'' = Text ''technology''"
  "mapCategoryToBackend ''Sports'' = Text ''sports''"
  "mapCategoryToBackend ''Entertainment'' = Text ''entertainment''"
  "mapCategoryToBackend ''Business'' = Text ''business''"
  "mapCategoryToBackend ''Health'' = Text ''health''"
  "mapCategoryToBackend ''Science'' = Text ''science''"
  by (simp_all add: mapCategoryToBackend_def categoryMap_def own_categoryMap_def)

lemma mapCategoryToBackend_other:
  "c \<notin> {''General'', ''Technology'', ''Sports'', ''Entertainment'', ''Business'', ''Health'',
          ''Science''} \<Longrightarrow> c \<notin> set object_prototype_names
   \<Longrightarrow> mapCategoryToBackend c = Text (toLowerCase c)"
  by (simp add: mapCategoryToBackend_def categoryMap_def own_categoryMap_def)

lemma mapCategoryToBackend_inherited:
  "c \<in> set object_prototype_names \<Longrightarrow> mapCategoryToBackend c = Inherited c"
  by (auto simp: mapCategoryToBackend_def categoryMap_def own_categoryMap_def
      object_prototype_names_def)

lemma request_params_category:
  "map_of (request_params category query) ''category'' =
     (case category of
        Str c \<Rightarrow> if c = [] \<or> c = ''All'' then None else Some (mapCategoryToBackend c)
      | _ \<Rightarrow> None)"
  by (simp add: request_params_def split: jsarg.splits)

lemma request_params_q:
  "map_of (request_params category query) ''q'' =
     (case query of
        Str q \<Rightarrow> if trim q = [] then None else Some (Text (trim q))
      | _ \<Rightarrow> None)"
  by (auto simp: request_params_def trim_def split: jsarg.splits)

text \<open>
  C7, as the claim states it, fails: the guard of \<open>_performRequest\<close> compares with \<open>'All'\<close>,
  so the lower-case \<open>all\<close> is sent to the backend as a category, and \<open>All\<close> is not; and a
  category outside the table does not always pass through lower-cased: for \<open>constructor\<close>
  the lookup in \<open>categoryMap\<close> finds the member inherited from \<open>Object.prototype\<close>, and that
  is what is appended.
\<close>

theorem request_params_all_counterexample:
  "request_params (Str ''all'') Null = [(''category'', Text ''all'')]
   \<and> request_params (Str ''All'') Null = []
   \<and> request_params (Str ''constructor'') Null = [(''category'', Inherited ''constructor'')]"
  by (simp add: request_params_def mapCategoryToBackend_def categoryMap_def own_categoryMap_def
      object_prototype_names_def toLowerCase_def lower_char_def)

text \<open>
  C7, amended. The \<open>category\<close> parameter is omitted exactly when the category is absent
  (\<open>undefined\<close> or \<open>null\<close>), the empty string, or exactly \<open>All\<close>; otherwise it carries what
  \<open>_mapCategoryToBackend\<close> returns: the slug of the seven table entries, and the lower-cased
  category for any other category that is not the name of a property of \<open>Object.prototype\<close>.
  The \<open>q\<close> parameter is omitted exactly when the query is absent or blank after trimming,
  and otherwise carries the trimmed query.
\<close>

theorem request_params_spec:
  "(map_of (request_params category query) ''category'' = None
      \<longleftrightarrow> category \<in> {Undefined, Null, Str [], Str ''All''})
   \<and> (\<forall>c. category = Str c \<and> c \<noteq> [] \<and> c \<noteq> ''All''
          \<longrightarrow> map_of (request_params category query) ''category'' = Some (mapCategoryToBackend c))
   \<and> map (\<lambda>c. mapCategoryToBackend c)
        [''General'', ''Technology'', ''Sports'', ''Entertainment'', ''Business'', ''Health'',
         ''Science'']
      = [Text ''general'', Text ''technology'', Text ''sports'', Text ''entertainment'',
         Text ''business'', Text ''health'', Text ''science'']
   \<and> (\<forall>c. c \<notin> {''General'', ''Technology'', ''Sports'', ''Entertainment'', ''Business'',
                 ''Health'', ''Science''} \<and> c \<notin> set object_prototype_names
          \<longrightarrow> mapCategoryToBackend c = Text (toLowerCase c))
   \<and> (map_of (request_params category query) ''q'' = None
      \<longleftrightarrow> query \<in> {Undefined, Null} \<or> (\<exists>q. query = Str q \<and> trim q = []))
   \<and> (\<forall>q. query = Str q \<and> trim q \<noteq> []
          \<longrightarrow> map_of (request_params category query) ''q'' = Some (Text (trim q)))"
proof -
  have cat_none: "map_of (request_params category query) ''category'' = None
      \<longleftrightarrow> category \<in> {Undefined, Null, Str [], Str ''All''}"
    by (simp add: request_params_category split: jsarg.splits)
  have cat_some: "\<forall>c. category = Str c \<and> c \<noteq> [] \<and> c \<noteq> ''All''
      \<longrightarrow> map_of (request_params category query) ''category'' = Some (mapCategoryToBackend c)"
    by (simp add: request_params_category)
  have table: "map (\<lambda>c. mapCategoryToBackend c)
        [''General'', ''Technology'', ''Sports'', ''Entertainment'', ''Business'', ''Health'',
         ''Science'']
      = [Text ''general'', Text ''technology'', Text ''sports'', Text ''entertainment'',
         Text ''business'', Text ''health'', Text ''science'']"
    by (simp only: mapCategoryToBackend_table list.map)
  have other: "\<forall>c. c \<notin> {''General'', ''Technology'', ''Sports'', ''Entertainment'', ''Business'',
                 ''Health'', ''Science''} \<and> c \<notin> set object_prototype_names
          \<longrightarrow> mapCategoryToBackend c = Text (toLowerCase c)"
    by (intro allI impI, elim conjE, rule mapCategoryToBackend_other)
  have q_none: "map_of (request_params category query) ''q'' = None
      \<longleftrightarrow> query \<in> {Undefined, Null} \<or> (\<exists>q. query = Str q \<and> trim q = [])"
    by (simp add: request_params_q split: jsarg.splits)
  have q_some: "\<forall>q. query = Str q \<and> trim q \<noteq> []
      \<longrightarrow> map_of (request_params category query) ''q'' = Some (Text (trim q))"
    by (simp add: request_params_q)
  from cat_none cat_some table other q_none q_some show ?thesis by (intro conjI)
qed

theorem request_params_spec_witness:
  "map_of (request_params (Str ''Technology'') (Str '' ai '')) ''category''
     = Some (Text ''technology'')
   \<and> map_of (request_params (Str ''Technology'') (Str '' ai '')) ''q'' = Some (Text ''ai'')
   \<and> ''Weather'' \<notin> set object_prototype_names
   \<and> mapCategoryToBackend ''Weather'' = Text ''weather''"
proof -
  have t: "trim '' ai '' = ''ai''"
    by (simp add: trim_def is_space_def)
  have l: "toLowerCase ''Weather'' = ''weather''"
    by code_simp
  have n: "''Weather'' \<notin> set object_prototype_names"
    by (simp add: object_prototype_names_def)
  show ?thesis
    using request_params_spec [of "Str ''Technology''" "Str '' ai ''"] t l n
    by (simp add: mapCategoryToBackend_table)
qed

section \<open>Cache expiry\<close>

text \<open>
  C3. The timeout is 15 minutes, 900000 ms. While the entry that \<open>_setCache\<close> stored for a
  key at time \<open>T\<close> with payload \<open>d\<close> is the key's entry, \<open>_getFromCache\<close> at any time before
  \<open>T + 900000\<close> returns \<open>d\<close> tagged \<open>fromCache = true\<close> and leaves the cache as it is, and at
  any time from \<open>T + 900000\<close> on it returns nothing and deletes the key's entry.
\<close>

theorem getFromCache_ttl:
  assumes "cache s k = cache (setCache k d T s0) k"
  shows "cacheTimeout = 900000
         \<and> getFromCache k t s =
             (if t < T + 900000 then (Some (d\<lparr>fromCache := Some True\<rparr>), s)
              else (None, s\<lparr>cache := (cache s)(k := None)\<rparr>))"
  using assms by (auto simp: getFromCache_def isCacheValid_def cacheTimeout_def setCache_def)

theorem getFromCache_ttl_witness:
  "getFromCache ''technology-ai'' 899999
       (setCache ''technology-ai'' \<lparr>resp_articles = Some [1::nat, 2], totalResults = Some 2,
           page = Some 1, pageSize = Some 20, fromCache = None\<rparr> 0 new_service)
     = (Some \<lparr>resp_articles = Some [1, 2], totalResults = Some 2, page = Some 1,
              pageSize = Some 20, fromCache = Some True\<rparr>,
        setCache ''technology-ai'' \<lparr>resp_articles = Some [1, 2], totalResults = Some 2,
           page = Some 1, pageSize = Some 20, fromCache = None\<rparr> 0 new_service)
   \<and> fst (getFromCache ''technology-ai'' 900000
       (setCache ''technology-ai'' \<lparr>resp_articles = Some [1::nat, 2], totalResults = Some 2,
           page = Some 1, pageSize = Some 20, fromCache = None\<rparr> 0 new_service)) = None"
proof -
  define d :: "nat response" where
    "d = \<lparr>resp_articles = Some [1, 2], totalResults = Some 2, page = Some 1,
          pageSize = Some 20, fromCache = None\<rparr>"
  define s :: "nat service" where "s = setCache ''technology-ai'' d 0 new_service"
  have stored: "cache s ''technology-ai'' = cache (setCache ''technology-ai'' d 0 new_service) ''technology-ai''"
    by (simp add: s_def)
  have early: "getFromCache ''technology-ai'' 899999 s = (Some (d\<lparr>fromCache := Some True\<rparr>), s)"
    using getFromCache_ttl [OF stored, of 899999, THEN conjunct2] by simp
  have late: "fst (getFromCache ''technology-ai'' 900000 s) = None"
    using getFromCache_ttl [OF stored, of 900000, THEN conjunct2] by simp
  show ?thesis
    using early late unfolding s_def d_def by simp
qed

section \<open>Deduplication of in-flight requests\<close>

lemma checked_frame:
  assumes "checked k u t1 t2 s = (r, s2)"
  shows "ongoingRequests s2 = ongoingRequests s" "requests s2 = requests s"
    "settled s2 = settled s" "awaiting s2 = awaiting s"
    "cache s2 k' = None \<or> cache s2 k' = cache s k'"
    "u \<Longrightarrow> r = None \<Longrightarrow> cache s2 k = None"
  using assms
  by (auto simp: checked_def getFromCache_def cleanupCache_def split: if_splits option.splits)

lemma fetchNews_unfold:
  "fetchNews c q u t1 t2 s =
     (case generateCacheKey (or_default Null c) (or_default Null q) of
        Inl e \<Rightarrow> (Threw e, cleanupCache t1 s)
      | Inr k \<Rightarrow>
          (case checked k u t1 t2 s of
             (Some d, s2) \<Rightarrow> (FromCache d, s2)
           | (None, s2) \<Rightarrow>
               (case ongoingRequests s2 k of
                  Some p \<Rightarrow> (Joined p, s2)
                | None \<Rightarrow>
                    (Started (length (requests s2)),
                     s2\<lparr>requests := requests s2 @ [(k, request_params (or_default Null c) (or_default Null q))],
                        ongoingRequests := (ongoingRequests s2)(k \<mapsto> length (requests s2)),
                        awaiting := (awaiting s2)(length (requests s2) \<mapsto> (k, u))\<rparr>))))"
  by (auto simp: fetchNews_def checked_def Let_def split: sum.splits prod.splits option.splits)

lemma checked_inv:
  assumes "dedup_inv k s" "checked k' u t1 t2 s = (r, s2)"
  shows "dedup_inv k s2"
proof -
  note fr = checked_frame[OF assms(2)]
  have c: "cache s k = None \<Longrightarrow> cache s2 k = None" using fr(5)[of k] by auto
  have d: "cache s2 k = None" if "awaiting s2 p = Some (k, True)" for p
  proof -
    have "awaiting s p = Some (k, True)" using that by (simp add: fr(4))
    then have "cache s k = None" using assms(1) unfolding dedup_inv_def by blast
    then show ?thesis by (rule c)
  qed
  have rest: "(\<forall>p. p < length (requests s2) \<and> fst (requests s2 ! p) = k \<and> settled s2 p = None
          \<longrightarrow> ongoingRequests s2 k = Some p \<and> (\<exists>u. awaiting s2 p = Some (k, u)))
   \<and> (\<forall>p u. awaiting s2 p = Some (k, u) \<longrightarrow> ongoingRequests s2 k = Some p)
   \<and> (\<forall>p. settled s2 p \<noteq> None \<longrightarrow> p < length (requests s2))
   \<and> (\<forall>p. awaiting s2 p \<noteq> None \<longrightarrow> p < length (requests s2))"
    using assms(1) unfolding dedup_inv_def fr(1,2,3,4) by (elim conjE, intro conjI)
  show ?thesis
    unfolding dedup_inv_def using rest d by blast
qed

lemma started_inv:
  assumes inv: "dedup_inv k s2" and free: "ongoingRequests s2 k' = None"
    and fresh: "u \<Longrightarrow> cache s2 k' = None"
  shows "dedup_inv k (s2\<lparr>requests := requests s2 @ [(k', ps)],
                        ongoingRequests := (ongoingRequests s2)(k' \<mapsto> length (requests s2)),
                        awaiting := (awaiting s2)(length (requests s2) \<mapsto> (k', u))\<rparr>)"
    (is "dedup_inv k ?s'")
proof -
  have no_aw: "awaiting s2 (length (requests s2)) = None"
    using inv unfolding dedup_inv_def by (metis less_irrefl)
  have a: "ongoingRequests ?s' k = Some p \<and> (\<exists>u'. awaiting ?s' p = Some (k, u'))"
    if "p < length (requests ?s')" "fst (requests ?s' ! p) = k" "settled ?s' p = None" for p
  proof (cases "p = length (requests s2)")
    case True
    then show ?thesis using that by simp
  next
    case False
    then have old: "p < length (requests s2)" "fst (requests s2 ! p) = k" "settled s2 p = None"
      using that by (simp_all add: nth_append)
    then have o: "ongoingRequests s2 k = Some p" "\<exists>u'. awaiting s2 p = Some (k, u')"
      using inv unfolding dedup_inv_def by blast+
    then have "k' \<noteq> k" using free by auto
    then show ?thesis using o False by simp
  qed
  have c: "ongoingRequests ?s' k = Some p" if "awaiting ?s' p = Some (k, u')" for p u'
  proof (cases "p = length (requests s2)")
    case True
    then show ?thesis using that by simp
  next
    case False
    then have "awaiting s2 p = Some (k, u')" using that by simp
    then have o: "ongoingRequests s2 k = Some p" using inv unfolding dedup_inv_def by blast
    then have "k' \<noteq> k" using free by auto
    then show ?thesis using o by simp
  qed
  have d: "cache ?s' k = None" if "awaiting ?s' p = Some (k, True)" for p
  proof (cases "p = length (requests s2)")
    case True
    then show ?thesis using that fresh by simp
  next
    case False
    then have "awaiting s2 p = Some (k, True)" using that by simp
    then have "cache s2 k = None" using inv unfolding dedup_inv_def by blast
    then show ?thesis by simp
  qed
  have e: "p < length (requests ?s')" if "settled ?s' p \<noteq> None" for p
    using inv that unfolding dedup_inv_def by (simp add: less_Suc_eq)
  have f: "p < length (requests ?s')" if "awaiting ?s' p \<noteq> None" for p
    using inv that unfolding dedup_inv_def by (auto simp: less_Suc_eq split: if_splits)
  show ?thesis unfolding dedup_inv_def using a c d e f by blast
qed

lemma fetch_inv:
  assumes "dedup_inv k s"
  shows "dedup_inv k (snd (fetchNews c q u t1 t2 s))"
proof (cases "generateCacheKey (or_default Null c) (or_default Null q)")
  case (Inl e)
  have "checked k False t1 t2 s = (None, cleanupCache t1 s)" by (simp add: checked_def)
  then have "dedup_inv k (cleanupCache t1 s)" using checked_inv[OF assms] by blast
  then show ?thesis using Inl by (simp add: fetchNews_unfold)
next
  case (Inr k')
  obtain r s2 where ch: "checked k' u t1 t2 s = (r, s2)" by (cases "checked k' u t1 t2 s")
  have i2: "dedup_inv k s2" using checked_inv[OF assms ch] .
  show ?thesis
  proof (cases r)
    case (Some d)
    then show ?thesis using Inr ch i2 by (simp add: fetchNews_unfold)
  next
    case None
    note rN = this
    show ?thesis
    proof (cases "ongoingRequests s2 k'")
      case (Some p)
      then show ?thesis using Inr ch i2 rN by (simp add: fetchNews_unfold)
    next
      case None
      have ck: "u \<Longrightarrow> cache s2 k' = None" using checked_frame(6)[OF ch] rN by simp
      show ?thesis
        using started_inv[OF i2 None ck] Inr ch rN None by (simp add: fetchNews_unfold)
    qed
  qed
qed

lemma settle_inv: "dedup_inv k s \<Longrightarrow> dedup_inv k (settle p out s)"
  by (auto simp: dedup_inv_def settle_def)

lemma resume_frame:
  assumes "awaiting s p = Some (k, u)" "settled s p = Some out"
  shows "fst (resume p t s) = Some out"
    "requests (snd (resume p t s)) = requests s"
    "settled (snd (resume p t s)) = settled s"
    "ongoingRequests (snd (resume p t s)) = (ongoingRequests s)(k := None)"
    "awaiting (snd (resume p t s)) = (awaiting s)(p := None)"
    "k' \<noteq> k \<Longrightarrow> cache (snd (resume p t s)) k' = cache s k'"
    "\<not> u \<or> (\<exists>e. out = Rejected e) \<Longrightarrow> cache (snd (resume p t s)) = cache s"
    "u \<Longrightarrow> out = Fulfilled d \<Longrightarrow> cache (snd (resume p t s)) = cache (setCache k d t s)"
  using assms by (auto simp: resume_def setCache_def split: outcome.splits)

lemma resume_idle:
  "awaiting s p = None \<or> settled s p = None \<Longrightarrow> resume p t s = (None, s)"
  by (auto simp: resume_def split: option.splits)

lemma resume_inv:
  assumes inv: "dedup_inv k s"
  shows "dedup_inv k (snd (resume p t s))"
proof (cases "awaiting s p = None \<or> settled s p = None")
  case True
  then show ?thesis using inv by (simp add: resume_idle)
next
  case False
  then obtain kp u out where aw: "awaiting s p = Some (kp, u)" and st: "settled s p = Some out"
    by auto
  note fr = resume_frame[OF aw st]
  let ?s' = "snd (resume p t s)"
  show ?thesis
  proof (cases "kp = k")
    case False
    have a: "ongoingRequests ?s' k = Some p' \<and> (\<exists>u'. awaiting ?s' p' = Some (k, u'))"
      if "p' < length (requests ?s')" "fst (requests ?s' ! p') = k" "settled ?s' p' = None" for p'
    proof -
      have o: "ongoingRequests s k = Some p'" "\<exists>u'. awaiting s p' = Some (k, u')"
        using inv that unfolding dedup_inv_def fr(2,3) by blast+
      then have "p' \<noteq> p" using aw False by auto
      then show ?thesis using o False by (simp add: fr(4,5))
    qed
    have c: "ongoingRequests ?s' k = Some p'" if "awaiting ?s' p' = Some (k, u')" for p' u'
    proof -
      have "awaiting s p' = Some (k, u')" using that by (auto simp: fr(5) split: if_splits)
      then show ?thesis using inv False unfolding dedup_inv_def by (simp add: fr(4))
    qed
    have d: "cache ?s' k = None" if "awaiting ?s' p' = Some (k, True)" for p'
    proof -
      have "awaiting s p' = Some (k, True)" using that by (auto simp: fr(5) split: if_splits)
      then have "cache s k = None" using inv unfolding dedup_inv_def by blast
      then show ?thesis using False fr(6)[of k] by simp
    qed
    have e: "p' < length (requests ?s')" if "settled ?s' p' \<noteq> None" for p'
      using inv that unfolding dedup_inv_def by (simp add: fr(2,3))
    have f: "p' < length (requests ?s')" if "awaiting ?s' p' \<noteq> None" for p'
      using inv that unfolding dedup_inv_def by (auto simp: fr(2,5) split: if_splits)
    show ?thesis unfolding dedup_inv_def using a c d e f by blast
  next
    case True
    have reg: "ongoingRequests s k = Some p"
      using inv aw True unfolding dedup_inv_def by blast
    have a: False
      if "p' < length (requests ?s')" "fst (requests ?s' ! p') = k" "settled ?s' p' = None" for p'
    proof -
      have "ongoingRequests s k = Some p'"
        using inv that unfolding dedup_inv_def fr(2,3) by blast
      then have "p' = p" using reg by simp
      then show False using that(3) st by (simp add: fr(3))
    qed
    have c: False if "awaiting ?s' p' = Some (k, u')" for p' u'
    proof -
      have p': "p' \<noteq> p" "awaiting s p' = Some (k, u')"
        using that by (auto simp: fr(5) split: if_splits)
      then have "ongoingRequests s k = Some p'" using inv unfolding dedup_inv_def by blast
      then show False using reg p'(1) by simp
    qed
    have e: "p' < length (requests ?s')" if "settled ?s' p' \<noteq> None" for p'
      using inv that unfolding dedup_inv_def by (simp add: fr(2,3))
    have f: "p' < length (requests ?s')" if "awaiting ?s' p' \<noteq> None" for p'
      using inv that unfolding dedup_inv_def by (auto simp: fr(2,5) split: if_splits)
    show ?thesis unfolding dedup_inv_def using a c e f by blast
  qed
qed

lemma clear_inv:
  assumes inv: "dedup_inv k s" and idle: "pending_for s k = []"
  shows "dedup_inv k (clearCache s)"
proof -
  have none: "awaiting s p \<noteq> Some (k, u)" for p u
  proof
    assume aw: "awaiting s p = Some (k, u)"
    then have "p < length (requests s)" using inv unfolding dedup_inv_def by simp
    then have "p \<in> set (pending_for s k)" using aw by (simp add: pending_for_def)
    then show False using idle by simp
  qed
  have settled_all: "settled s p \<noteq> None"
    if "p < length (requests s)" "fst (requests s ! p) = k" for p
  proof
    assume "settled s p = None"
    then have "\<exists>u. awaiting s p = Some (k, u)" using inv that unfolding dedup_inv_def by blast
    then show False using none by blast
  qed
  have e: "\<forall>p. settled s p \<noteq> None \<longrightarrow> p < length (requests s)"
    using inv unfolding dedup_inv_def by (elim conjE)
  have f: "\<forall>p. awaiting s p \<noteq> None \<longrightarrow> p < length (requests s)"
    using inv unfolding dedup_inv_def by (elim conjE)
  have a: "\<forall>p. p < length (requests s) \<and> fst (requests s ! p) = k \<and> settled s p = None
          \<longrightarrow> Map.empty k = Some p \<and> (\<exists>u. awaiting s p = Some (k, u))"
    using settled_all by blast
  have c: "\<forall>p u. awaiting s p = Some (k, u) \<longrightarrow> Map.empty k = Some p"
    using none by blast
  show ?thesis
    unfolding dedup_inv_def clearCache_def using a c e f by simp
qed

lemma step_inv:
  "(if is_clear e then pending_for s k = [] else True) \<Longrightarrow> dedup_inv k s \<Longrightarrow> dedup_inv k (step e s)"
  by (cases e) (simp_all add: fetch_inv settle_inv resume_inv clear_inv)

lemma new_service_inv: "dedup_inv k new_service"
  by (simp add: dedup_inv_def new_service_def)

lemma run_inv: "clear_only_idle k evs s \<Longrightarrow> dedup_inv k s \<Longrightarrow> dedup_inv k (run evs s)"
  by (induction evs arbitrary: s) (simp_all add: step_inv)



lemma fetch_unregistered:
  assumes key: "generateCacheKey (or_default Null c) (or_default Null q) = Inr k"
    and reg: "ongoingRequests s k = None"
  shows "(\<exists>d. fst (fetchNews c q u t1 t2 s) = FromCache d)
         \<or> fst (fetchNews c q u t1 t2 s) = Started (length (requests s))"
    and "cache s k = None \<Longrightarrow> fst (fetchNews c q u t1 t2 s) = Started (length (requests s))"
proof -
  obtain r s2 where ch: "checked k u t1 t2 s = (r, s2)" by (cases "checked k u t1 t2 s")
  note fr = checked_frame[OF ch]
  show "(\<exists>d. fst (fetchNews c q u t1 t2 s) = FromCache d)
         \<or> fst (fetchNews c q u t1 t2 s) = Started (length (requests s))"
    using key ch reg fr(1,2) by (cases r) (simp_all add: fetchNews_unfold)
  assume "cache s k = None"
  then have "r = None"
    using ch by (auto simp: checked_def getFromCache_def cleanupCache_def split: if_splits)
  then show "fst (fetchNews c q u t1 t2 s) = Started (length (requests s))"
    using key ch reg fr(1,2) by (simp add: fetchNews_unfold)
qed





lemma step_cache_write:
  assumes "cache (step e s) k \<noteq> None" "cache (step e s) k \<noteq> cache s k"
  shows "\<exists>p now d. e = Resume p now \<and> awaiting s p = Some (k, True) \<and> settled s p = Some (Fulfilled d)"
proof (cases e)
  case (Fetch c q u t1 t2)
  have "cache (snd (fetchNews c q u t1 t2 s)) k = None \<or> cache (snd (fetchNews c q u t1 t2 s)) k = cache s k"
  proof (cases "generateCacheKey (or_default Null c) (or_default Null q)")
    case (Inl e)
    then show ?thesis by (auto simp: fetchNews_unfold cleanupCache_def split: option.splits)
  next
    case (Inr k')
    obtain r s2 where ch: "checked k' u t1 t2 s = (r, s2)" by (cases "checked k' u t1 t2 s")
    show ?thesis
      using Inr ch checked_frame(5)[OF ch, of k]
      by (cases r; cases "ongoingRequests s2 k'") (auto simp: fetchNews_unfold)
  qed
  then show ?thesis using assms Fetch by auto
next
  case (Settle p out)
  then show ?thesis using assms by (auto simp: settle_def split: if_splits)
next
  case (Resume p now)
  show ?thesis
  proof (cases "awaiting s p = None \<or> settled s p = None")
    case True
    then show ?thesis using Resume assms by (simp add: resume_idle)
  next
    case False
    then obtain k' u out where aw: "awaiting s p = Some (k', u)" and st: "settled s p = Some out"
      by auto
    note fr = resume_frame[OF aw st, where t = now]
    have "k' = k" using assms Resume fr(6)[where k' = k] by auto
    moreover have changed: "cache (snd (resume p now s)) \<noteq> cache s"
      using assms Resume by auto
    have "u" using changed fr(7) by blast
    moreover have "\<exists>d. out = Fulfilled d" using changed fr(7) by (cases out) blast+
    ultimately show ?thesis using Resume aw st by auto
  qed
next
  case ClearCache
  then show ?thesis using assms by (simp add: clearCache_def)
qed




text \<open>
  C4, as the claim states it, fails. A call with \<open>useCache = false\<close> goes to the network
  although the key has a valid entry, and when its request fails the entry is still there.
  And after \<open>clearCache\<close> during a pending request, a second request for the key can succeed
  and be cached before the first one fails.
\<close>

theorem failed_bypass_keeps_entry_counterexample:
  "isCached (Str ''Technology'') (Str ''ai'') 4
     (run [Fetch (Str ''Technology'') (Str ''ai'') True 0 0,
           Settle 0 (Fulfilled \<lparr>resp_articles = Some [1::nat, 2], totalResults = Some 2,
                       page = Some 1, pageSize = Some 20, fromCache = None\<rparr>),
           Resume 0 1,
           Fetch (Str ''Technology'') (Str ''ai'') False 2 2,
           Settle 1 (Rejected (Error ''Rate limit exceeded. Please try again later.'')),
           Resume 1 3] new_service) = Inr True
   \<and> isCached (Str ''Technology'') (Str ''ai'') 4
     (run [Fetch (Str ''Technology'') (Str ''ai'') True 0 0,
           ClearCache,
           Fetch (Str ''Technology'') (Str ''ai'') True 1 1,
           Settle 1 (Fulfilled \<lparr>resp_articles = Some [1::nat, 2], totalResults = Some 2,
                       page = Some 1, pageSize = Some 20, fromCache = None\<rparr>),
           Resume 1 2,
           Settle 0 (Rejected (Error ''Rate limit exceeded. Please try again later.'')),
           Resume 0 3] new_service) = Inr True"
  by code_simp

text \<open>
  C4, amended. In every state, when the request of an initiating call has failed and the
  call resumes, the call rejects with that error, the shared promise that the joined
  callers hold is rejected with it, the cache is exactly as it was (the failure writes
  nothing), the key's registration is removed and a later call for the key never joins.
  If the failed call was made with \<open>useCache = true\<close>, in an execution in which
  \<open>clearCache\<close> was only called while no request for the key was pending, then the key has
  no valid entry (\<open>isCached\<close> is false) and the next call for the key starts a new network
  request.
\<close>

theorem failed_fetch_not_cached:
  assumes "generateCacheKey (Str c) (Str q) = Inr k"
    and "awaiting s p = Some (k, useCache)"
    and "settled s p = Some (Rejected err)"
  shows "fst (resume p now s) = Some (Rejected err)
    \<and> settled (snd (resume p now s)) p = Some (Rejected err)
    \<and> cache (snd (resume p now s)) = cache s
    \<and> ongoingRequests (snd (resume p now s)) k = None
    \<and> (\<forall>u t1 t2 p'. fst (fetchNews (Str c) (Str q) u t1 t2 (snd (resume p now s))) \<noteq> Joined p')
    \<and> (\<forall>evs. useCache \<and> clear_only_idle k evs new_service \<and> s = run evs new_service \<longrightarrow>
          isCached (Str c) (Str q) t (snd (resume p now s)) = Inr False
          \<and> (\<forall>u t1 t2. fst (fetchNews (Str c) (Str q) u t1 t2 (snd (resume p now s)))
                = Started (length (requests s))))"
proof -
  let ?s' = "snd (resume p now s)"
  note fr = resume_frame[OF assms(2,3), where t = now]
  have key: "generateCacheKey (or_default Null (Str c)) (or_default Null (Str q)) = Inr k"
    using assms(1) by simp
  have err: "fst (resume p now s) = Some (Rejected err)" by (rule fr(1))
  have shared: "settled ?s' p = Some (Rejected err)" using assms(3) by (simp add: fr(3))
  have same: "cache ?s' = cache s" using fr(7) by simp
  have unreg: "ongoingRequests ?s' k = None" by (simp add: fr(4))
  have nojoin: "\<forall>u t1 t2 p'. fst (fetchNews (Str c) (Str q) u t1 t2 ?s') \<noteq> Joined p'"
  proof (intro allI)
    fix u t1 t2 p'
    show "fst (fetchNews (Str c) (Str q) u t1 t2 ?s') \<noteq> Joined p'"
      using fetch_unregistered(1)[OF key unreg, of u t1 t2] by auto
  qed
  have cached: "isCached (Str c) (Str q) t ?s' = Inr False
      \<and> (\<forall>u t1 t2. fst (fetchNews (Str c) (Str q) u t1 t2 ?s') = Started (length (requests s)))"
    if "useCache" "clear_only_idle k evs new_service" "s = run evs new_service" for evs
  proof -
    have inv: "dedup_inv k s"
      using that(2,3) by (simp add: run_inv new_service_inv)
    have "awaiting s p = Some (k, True)" using assms(2) that(1) by simp
    then have "cache s k = None" using inv unfolding dedup_inv_def by blast
    then have none: "cache ?s' k = None" using same by simp
    have "isCached (Str c) (Str q) t ?s' = Inr False"
      using none assms(1) by (simp add: isCached_def isCacheValid_def)
    moreover have "\<forall>u t1 t2. fst (fetchNews (Str c) (Str q) u t1 t2 ?s') = Started (length (requests s))"
      using fetch_unregistered(2)[OF key unreg none] by (simp add: fr(2))
    ultimately show ?thesis by simp
  qed
  have cached_all: "\<forall>evs. useCache \<and> clear_only_idle k evs new_service \<and> s = run evs new_service \<longrightarrow>
          isCached (Str c) (Str q) t ?s' = Inr False
          \<and> (\<forall>u t1 t2. fst (fetchNews (Str c) (Str q) u t1 t2 ?s') = Started (length (requests s)))"
    by (intro allI impI, elim conjE, rule cached)
  from err shared same unreg nojoin cached_all show ?thesis by (intro conjI)
qed

theorem failed_fetch_not_cached_witness:
  "clear_only_idle ''technology-ai''
       [Fetch (Str ''Technology'') (Str ''ai'') True 0 0,
        Settle 0 (Fulfilled \<lparr>resp_articles = Some [1::nat, 2], totalResults = Some 2,
                    page = Some 1, pageSize = Some 20, fromCache = None\<rparr>),
        Resume 0 1,
        ClearCache,
        Fetch (Str ''Technology'') (Str ''ai'') True 2 2,
        Settle 1 (Rejected (Error ''Rate limit exceeded. Please try again later.''))]
       new_service
   \<and> isCached (Str ''Technology'') (Str ''ai'') 4
       (run [Fetch (Str ''Technology'') (Str ''ai'') True 0 0,
             Settle 0 (Fulfilled \<lparr>resp_articles = Some [1::nat, 2], totalResults = Some 2,
                         page = Some 1, pageSize = Some 20, fromCache = None\<rparr>),
             Resume 0 1,
             ClearCache,
             Fetch (Str ''Technology'') (Str ''ai'') True 2 2,
             Settle 1 (Rejected (Error ''Rate limit exceeded. Please try again later.'')),
             Resume 1 3] new_service) = Inr False
   \<and> fst (resume 1 3
       (run [Fetch (Str ''Technology'') (Str ''ai'') True 0 0,
             Settle 0 (Fulfilled \<lparr>resp_articles = Some [1::nat, 2], totalResults = Some 2,
                         page = Some 1, pageSize = Some 20, fromCache = None\<rparr>),
             Resume 0 1,
             ClearCache,
             Fetch (Str ''Technology'') (Str ''ai'') True 2 2,
             Settle 1 (Rejected (Error ''Rate limit exceeded. Please try again later.''))]
          new_service))
      = Some (Rejected (Error ''Rate limit exceeded. Please try again later.''))"
proof -
  let ?evs = "[Fetch (Str ''Technology'') (Str ''ai'') True 0 0,
        Settle 0 (Fulfilled \<lparr>resp_articles = Some [1::nat, 2], totalResults = Some 2,
                    page = Some 1, pageSize = Some 20, fromCache = None\<rparr>),
        Resume 0 1,
        ClearCache,
        Fetch (Str ''Technology'') (Str ''ai'') True 2 2,
        Settle 1 (Rejected (Error ''Rate limit exceeded. Please try again later.''))] :: nat event list"
  define s :: "nat service" where "s = run ?evs new_service"
  have h1: "clear_only_idle ''technology-ai'' ?evs new_service"
    by code_simp
  have h3: "generateCacheKey (Str ''Technology'') (Str ''ai'') = Inr ''technology-ai''"
    by code_simp
  have h4: "awaiting s 1 = Some (''technology-ai'', True)"
    unfolding s_def by code_simp
  have h5: "settled s 1 = Some (Rejected (Error ''Rate limit exceeded. Please try again later.''))"
    unfolding s_def by code_simp
  note inst = failed_fetch_not_cached [OF h3 h4 h5, where now = 3 and t = 4]
  have r: "fst (resume 1 3 s) = Some (Rejected (Error ''Rate limit exceeded. Please try again later.''))"
    and all: "\<forall>evs. True \<and> clear_only_idle ''technology-ai'' evs new_service \<and> s = run evs new_service \<longrightarrow>
          isCached (Str ''Technology'') (Str ''ai'') 4 (snd (resume 1 3 s)) = Inr False
          \<and> (\<forall>u t1 t2. fst (fetchNews (Str ''Technology'') (Str ''ai'') u t1 t2 (snd (resume 1 3 s)))
                = Started (length (requests s)))"
    using inst by blast+
  have "isCached (Str ''Technology'') (Str ''ai'') 4 (snd (resume 1 3 s)) = Inr False"
    using all h1 s_def by blast
  then show ?thesis using h1 r by (simp add: s_def)
qed

text \<open>
  C10. A call that joins a registered request leaves no suspended activation behind and
  writes no cache entry (every entry afterwards was there before), also with
  \<open>useCache = true\<close>; an initiating call made with \<open>useCache = false\<close> leaves the cache as it
  is when it resumes; and the only step of the service that creates or replaces a cache
  entry is the resumption of an initiating call made with \<open>useCache = true\<close> whose request
  succeeded.
\<close>

theorem only_initiator_writes_cache:
  "(fst (fetchNews c q useCache t1 t2 s) = Joined p \<longrightarrow>
       awaiting (snd (fetchNews c q useCache t1 t2 s)) = awaiting s
       \<and> (\<forall>k. cache (snd (fetchNews c q useCache t1 t2 s)) k = None
              \<or> cache (snd (fetchNews c q useCache t1 t2 s)) k = cache s k))
   \<and> (awaiting s p = Some (k, False) \<longrightarrow> cache (snd (resume p now s)) = cache s)
   \<and> (cache (step e s) k \<noteq> None \<and> cache (step e s) k \<noteq> cache s k \<longrightarrow>
        (\<exists>p now d. e = Resume p now \<and> awaiting s p = Some (k, True)
                   \<and> settled s p = Some (Fulfilled d)))"
proof -
  have join: "awaiting (snd (fetchNews c q useCache t1 t2 s)) = awaiting s
       \<and> (\<forall>k. cache (snd (fetchNews c q useCache t1 t2 s)) k = None
              \<or> cache (snd (fetchNews c q useCache t1 t2 s)) k = cache s k)"
    if j: "fst (fetchNews c q useCache t1 t2 s) = Joined p"
  proof (cases "generateCacheKey (or_default Null c) (or_default Null q)")
    case (Inl e)
    then show ?thesis using j by (simp add: fetchNews_unfold)
  next
    case (Inr k')
    obtain r s2 where ch: "checked k' useCache t1 t2 s = (r, s2)"
      by (cases "checked k' useCache t1 t2 s")
    have "snd (fetchNews c q useCache t1 t2 s) = s2"
      using j Inr ch by (cases r; cases "ongoingRequests s2 k'") (simp_all add: fetchNews_unfold)
    then show ?thesis using checked_frame(4,5)[OF ch] by simp
  qed
  have bypass: "cache (snd (resume p now s)) = cache s" if aw: "awaiting s p = Some (k, False)"
  proof (cases "settled s p")
    case None
    then show ?thesis by (simp add: resume_idle)
  next
    case (Some out)
    show ?thesis using resume_frame(7)[OF aw Some] by simp
  qed
  from join bypass step_cache_write show ?thesis by (intro conjI impI) blast+
qed

theorem only_initiator_writes_cache_witness:
  "fst (fetchNews (Str ''Technology'') (Str ''ai'') True 1 1
          (run [Fetch (Str ''Technology'') (Str ''ai'') False 0 0] (new_service :: nat service)))
     = Joined 0
   \<and> awaiting (run [Fetch (Str ''Technology'') (Str ''ai'') False 0 0,
                    Fetch (Str ''Technology'') (Str ''ai'') True 1 1] (new_service :: nat service)) 1
     = None
   \<and> cache (run [Fetch (Str ''Technology'') (Str ''ai'') False 0 0,
                 Fetch (Str ''Technology'') (Str ''ai'') True 1 1,
                 Settle 0 (Fulfilled \<lparr>resp_articles = Some [1::nat, 2], totalResults = Some 2,
                             page = Some 1, pageSize = Some 20, fromCache = None\<rparr>),
                 Resume 0 2] new_service) ''technology-ai''
     = None"
proof -
  define s0 :: "nat service"
    where "s0 = run [Fetch (Str ''Technology'') (Str ''ai'') False 0 0] new_service"
  define s2 :: "nat service"
    where "s2 = run [Fetch (Str ''Technology'') (Str ''ai'') False 0 0,
                 Fetch (Str ''Technology'') (Str ''ai'') True 1 1,
                 Settle 0 (Fulfilled \<lparr>resp_articles = Some [1::nat, 2], totalResults = Some 2,
                             page = Some 1, pageSize = Some 20, fromCache = None\<rparr>)] new_service"
  have j: "fst (fetchNews (Str ''Technology'') (Str ''ai'') True 1 1 s0) = Joined 0"
    unfolding s0_def by code_simp
  have a0: "awaiting s0 1 = None"
    unfolding s0_def by code_simp
  have aw: "awaiting s2 0 = Some (''technology-ai'', False)"
    unfolding s2_def by code_simp
  have c2: "cache s2 ''technology-ai'' = None"
    unfolding s2_def by code_simp
  have "awaiting (snd (fetchNews (Str ''Technology'') (Str ''ai'') True 1 1 s0)) = awaiting s0"
    using only_initiator_writes_cache [of "Str ''Technology''" "Str ''ai''" True 1 1 s0 0] j by blast
  then have w1: "awaiting (snd (fetchNews (Str ''Technology'') (Str ''ai'') True 1 1 s0)) 1 = None"
    using a0 by simp
  have "cache (snd (resume 0 2 s2)) = cache s2"
    using only_initiator_writes_cache [of _ _ _ _ _ s2 0 "''technology-ai''" 2] aw by blast
  then have w2: "cache (snd (resume 0 2 s2)) ''technology-ai'' = None"
    using c2 by simp
  show ?thesis using j w1 w2 by (simp add: s0_def s2_def)
qed

section \<open>Error classification\<close>

lemma starts_with_prefix: "starts_with s t \<longleftrightarrow> prefix t s"
  by (induction s t rule: starts_with.induct) auto

lemma js_includes_sublist: "js_includes s t \<longleftrightarrow> sublist t s"
  by (induction s) (auto simp: starts_with_prefix sublist_Cons_right)

text \<open>
  C8. \<open>getErrorType\<close> returns exactly one of the five kinds for every message, decided by
  which texts occur in the message, in this order: \<open>Rate limit exceeded\<close> or \<open>429\<close> gives
  \<open>RATE_LIMIT\<close>; otherwise \<open>authentication failed\<close> or \<open>401\<close> gives \<open>AUTH_ERROR\<close>; otherwise
  \<open>temporarily unavailable\<close> or \<open>500\<close> gives \<open>SERVER_ERROR\<close>; otherwise \<open>Unable to connect\<close>
  or \<open>fetch\<close> gives \<open>NETWORK_ERROR\<close>; otherwise \<open>UNKNOWN_ERROR\<close>.
\<close>

theorem getErrorType_priority:
  "getErrorType m =
     (if sublist ''Rate limit exceeded'' m \<or> sublist ''429'' m then RATE_LIMIT
      else if sublist ''authentication failed'' m \<or> sublist ''401'' m then AUTH_ERROR
      else if sublist ''temporarily unavailable'' m \<or> sublist ''500'' m then SERVER_ERROR
      else if sublist ''Unable to connect'' m \<or> sublist ''fetch'' m then NETWORK_ERROR
      else UNKNOWN_ERROR)
   \<and> getErrorType m \<in> {RATE_LIMIT, AUTH_ERROR, SERVER_ERROR, NETWORK_ERROR, UNKNOWN_ERROR}"
proof
  show "getErrorType m =
     (if sublist ''Rate limit exceeded'' m \<or> sublist ''429'' m then RATE_LIMIT
      else if sublist ''authentication failed'' m \<or> sublist ''401'' m then AUTH_ERROR
      else if sublist ''temporarily unavailable'' m \<or> sublist ''500'' m then SERVER_ERROR
      else if sublist ''Unable to connect'' m \<or> sublist ''fetch'' m then NETWORK_ERROR
      else UNKNOWN_ERROR)"
    unfolding getErrorType_def js_includes_sublist by (rule refl)
  show "getErrorType m \<in> {RATE_LIMIT, AUTH_ERROR, SERVER_ERROR, NETWORK_ERROR, UNKNOWN_ERROR}"
    by (cases "getErrorType m") simp_all
qed

text \<open>The messages that the service itself produces, and one that matches two patterns.\<close>

lemma service_messages:
  "getErrorType ''Rate limit exceeded. Please try again later.'' = RATE_LIMIT"
  "getErrorType ''Backend API authentication failed. Please check NewsAPI configuration.'' = AUTH_ERROR"
  "getErrorType ''Backend service is temporarily unavailable. Please try again later.'' = SERVER_ERROR"
  "getErrorType ''Unable to connect to backend service. Please check if the backend is running.'' = NETWORK_ERROR"
  "getErrorType ''HTTP error! status: 404'' = UNKNOWN_ERROR"
  "getErrorType ''Rate limit exceeded (401)'' = RATE_LIMIT"
  by code_simp+

section \<open>Retry backoff\<close>

text \<open>
  C1, as the claim states it, fails: the delay is computed from the incremented retry
  count, so the second consecutive rate-limit retry waits 2000 ms, not 1000 ms.
\<close>

theorem retry_delay_second_counterexample:
  "delay_ms (fst (handleRetry ((initial_hook ''All'' '''' :: nat hook)
      \<lparr>errorType := Some RATE_LIMIT, retryCount := 1\<rparr>))) = 2000"
  by (simp add: handleRetry_def initial_hook_def)

lemma pow_ge_32: "5 \<le> n \<Longrightarrow> (32::nat) \<le> 2 ^ n"
proof -
  assume "5 \<le> n"
  then have "(2::nat) ^ 5 \<le> 2 ^ n" by (intro power_increasing) simp_all
  then show ?thesis by simp
qed

text \<open>
  C1, amended: while the last error kind is \<open>RATE_LIMIT\<close>, the retries numbered 1 to 6 (the
  retry count before the call being one less) are delayed by 0, 2000, 4000, 8000, 16000 and
  30000 ms, every retry from the sixth on by 30000 ms, and each retry increments the count.
\<close>

theorem retry_backoff_schedule:
  assumes "errorType h = Some RATE_LIMIT"
  shows "map (\<lambda>n. delay_ms (fst (handleRetry (h\<lparr>retryCount := n - 1\<rparr>)))) [1, 2, 3, 4, 5, 6]
           = [0, 2000, 4000, 8000, 16000, 30000]
    \<and> (\<forall>n\<ge>6. delay_ms (fst (handleRetry (h\<lparr>retryCount := n - 1\<rparr>))) = 30000)
    \<and> (\<forall>n. retryCount (snd (handleRetry (h\<lparr>retryCount := n\<rparr>))) = n + 1)"
proof -
  have sched: "map (\<lambda>n. delay_ms (fst (handleRetry (h\<lparr>retryCount := n - 1\<rparr>)))) [1, 2, 3, 4, 5, 6]
           = [0, 2000, 4000, 8000, 16000, 30000]"
    using assms by (simp add: handleRetry_def)
  have cap: "delay_ms (fst (handleRetry (h\<lparr>retryCount := n - 1\<rparr>))) = 30000" if "6 \<le> n" for n
  proof -
    have "(32::nat) \<le> 2 ^ (n - 1)" using that by (intro pow_ge_32) simp
    then have "(30000::nat) \<le> 1000 * 2 ^ (n - 1)" by simp
    then show ?thesis using assms that by (simp add: handleRetry_def min_def)
  qed
  have cnt: "retryCount (snd (handleRetry (h\<lparr>retryCount := n\<rparr>))) = n + 1" for n
    by (simp add: handleRetry_def Let_def)
  from sched cap cnt show ?thesis by simp
qed

theorem retry_backoff_schedule_witness:
  "errorType ((initial_hook ''All'' '''' :: nat hook)\<lparr>errorType := Some RATE_LIMIT\<rparr>) = Some RATE_LIMIT
   \<and> delay_ms (fst (handleRetry ((initial_hook ''All'' '''' :: nat hook)
        \<lparr>errorType := Some RATE_LIMIT, retryCount := 6\<rparr>))) = 30000"
proof -
  let ?h = "(initial_hook ''All'' '''' :: nat hook)\<lparr>errorType := Some RATE_LIMIT\<rparr>"
  have h: "errorType ?h = Some RATE_LIMIT" by simp
  have "delay_ms (fst (handleRetry (?h\<lparr>retryCount := 7 - 1\<rparr>))) = 30000"
    using retry_backoff_schedule [OF h] by (elim conjE allE [where x = 7]) simp
  then show ?thesis by simp
qed

section \<open>Responses arriving at the hook\<close>

lemma begin_latest:
  assumes "fetchNews_hook_begin category query is_retry seen cachedData h = (call, h')"
  shows "lastFetchParams h' = Some (allocated h, category, query)"
    "params_id call = allocated h" "call_category call = category" "call_query call = query"
    "isRetry call = is_retry" "seen_length call = seen"
    "allocated h' = Suc (allocated h)" "error h' = None" "errorType h' = None"
  using assms by (auto simp: fetchNews_hook_begin_def Let_def)

lemma settled_stale:
  assumes "lastFetchParams h = Some (i, c, q)" "i \<noteq> params_id call"
    "(c, q) \<noteq> (call_category call, call_query call)"
  shows "fetchNews_hook_settled call result h = h"
  using assms
  by (cases result) (auto simp: is_latest_object_def matches_latest_def finally_block_def)

lemma settled_latest_data:
  assumes "lastFetchParams h = Some (params_id call, call_category call, call_query call)"
  shows "articles (fetchNews_hook_settled call (Data d) h) = or_empty (resp_articles d)"
    "error (fetchNews_hook_settled call (Data d) h) = error h"
    "errorType (fetchNews_hook_settled call (Data d) h) = errorType h"
    "retryCount (fetchNews_hook_settled call (Data d) h) = 0"
  using assms by (simp_all add: is_latest_object_def matches_latest_def finally_block_def)

lemma settled_latest_failure:
  assumes "matches_latest call h"
  shows "articles (fetchNews_hook_settled call (Failure msg) h)
           = (if isRetry call \<and> seen_length call \<noteq> 0 then articles h else [])"
    "error (fetchNews_hook_settled call (Failure msg) h) = Some msg"
    "errorType (fetchNews_hook_settled call (Failure msg) h) = Some (getErrorType msg)"
proof -
  have m: "matches_latest call (h\<lparr>error := Some msg, errorType := Some (getErrorType msg)\<rparr>)"
    "matches_latest call (h\<lparr>error := Some msg, errorType := Some (getErrorType msg), articles := []\<rparr>)"
    using assms by (simp_all add: matches_latest_def)
  show "articles (fetchNews_hook_settled call (Failure msg) h)
           = (if isRetry call \<and> seen_length call \<noteq> 0 then articles h else [])"
    "error (fetchNews_hook_settled call (Failure msg) h) = Some msg"
    "errorType (fetchNews_hook_settled call (Failure msg) h) = Some (getErrorType msg)"
    using assms m by (simp_all add: finally_block_def Let_def)
qed

text \<open>
  C5. A fetch for parameters A is issued, then a fetch for different parameters B, and B
  settles before A. Then A's late result, success or failure, changes nothing at all, and
  the state shows B's outcome: B's articles with no error, or B's error message and its
  kind. In general a settled call changes nothing whenever the latest issued parameters are
  another object with another category or query.
\<close>

theorem stale_response_discarded:
  assumes "(categoryA, queryA) \<noteq> (categoryB, queryB)"
    and "fetchNews_hook_begin categoryA queryA retryA seenA cachedA h0 = (callA, h1)"
    and "fetchNews_hook_begin categoryB queryB retryB seenB cachedB h1 = (callB, h2)"
  shows "fetchNews_hook_settled callA resultA (fetchNews_hook_settled callB resultB h2)
           = fetchNews_hook_settled callB resultB h2
    \<and> (\<forall>d. resultB = Data d \<longrightarrow>
          articles (fetchNews_hook_settled callB resultB h2) = or_empty (resp_articles d)
          \<and> error (fetchNews_hook_settled callB resultB h2) = None
          \<and> errorType (fetchNews_hook_settled callB resultB h2) = None)
    \<and> (\<forall>msg. resultB = Failure msg \<longrightarrow>
          error (fetchNews_hook_settled callB resultB h2) = Some msg
          \<and> errorType (fetchNews_hook_settled callB resultB h2) = Some (getErrorType msg))
    \<and> (\<forall>h i c q. lastFetchParams h = Some (i, c, q) \<and> i \<noteq> params_id callA
          \<and> (c, q) \<noteq> (categoryA, queryA) \<longrightarrow> fetchNews_hook_settled callA resultA h = h)"
proof -
  note a = begin_latest[OF assms(2)]
  note b = begin_latest[OF assms(3)]
  let ?h3 = "fetchNews_hook_settled callB resultB h2"
  have latestB: "lastFetchParams h2 = Some (params_id callB, call_category callB, call_query callB)"
    using b by simp
  have ref3: "lastFetchParams ?h3 = lastFetchParams h2"
    by (cases resultB) (simp_all add: finally_block_def Let_def)
  have ids: "params_id callB \<noteq> params_id callA"
    using a b by simp
  have stale: "fetchNews_hook_settled callA resultA ?h3 = ?h3"
  proof (rule settled_stale)
    show "lastFetchParams ?h3 = Some (params_id callB, categoryB, queryB)"
      using ref3 latestB b by simp
    show "params_id callB \<noteq> params_id callA" by (rule ids)
    show "(categoryB, queryB) \<noteq> (call_category callA, call_query callA)"
      using assms(1) a by auto
  qed
  have data: "\<forall>d. resultB = Data d \<longrightarrow>
          articles ?h3 = or_empty (resp_articles d) \<and> error ?h3 = None \<and> errorType ?h3 = None"
    using settled_latest_data[OF latestB] b(8,9) by simp
  have mB: "matches_latest callB h2"
    using latestB by (simp add: matches_latest_def)
  have failure: "\<forall>msg. resultB = Failure msg \<longrightarrow>
          error ?h3 = Some msg \<and> errorType ?h3 = Some (getErrorType msg)"
    using settled_latest_failure(2,3)[OF mB] by simp
  have general: "\<forall>h i c q. lastFetchParams h = Some (i, c, q) \<and> i \<noteq> params_id callA
          \<and> (c, q) \<noteq> (categoryA, queryA) \<longrightarrow> fetchNews_hook_settled callA resultA h = h"
    using settled_stale[where call = callA and result = resultA] a(3,4) by auto
  from stale data failure general show ?thesis by (intro conjI)
qed

theorem stale_response_discarded_witness:
  "(''Technology'', '''') \<noteq> (''Sports'', '''')
   \<and> articles
       (fetchNews_hook_settled
          (fst (fetchNews_hook_begin ''Technology'' '''' False 0 (None :: nat response option) (initial_hook ''Technology'' '''' :: nat hook)))
          (Data \<lparr>resp_articles = Some [1::nat], totalResults = Some 1, page = Some 1,
                  pageSize = Some 20, fromCache = None\<rparr>)
          (fetchNews_hook_settled
             (fst (fetchNews_hook_begin ''Sports'' '''' False 0 (None :: nat response option)
                (snd (fetchNews_hook_begin ''Technology'' '''' False 0 (None :: nat response option)
                       (initial_hook ''Technology'' '''' :: nat hook)))))
             (Data \<lparr>resp_articles = Some [7, 8], totalResults = Some 2, page = Some 1,
                     pageSize = Some 20, fromCache = None\<rparr>)
             (snd (fetchNews_hook_begin ''Sports'' '''' False 0 (None :: nat response option)
                (snd (fetchNews_hook_begin ''Technology'' '''' False 0 (None :: nat response option)
                       (initial_hook ''Technology'' '''' :: nat hook)))))))
     = [7, 8]"
proof -
  define h0 :: "nat hook" where "h0 = initial_hook ''Technology'' ''''"
  define callA where "callA = fst (fetchNews_hook_begin ''Technology'' '''' False 0 (None :: nat response option) h0)"
  define h1 where "h1 = snd (fetchNews_hook_begin ''Technology'' '''' False 0 (None :: nat response option) h0)"
  define callB where "callB = fst (fetchNews_hook_begin ''Sports'' '''' False 0 (None :: nat response option) h1)"
  define h2 where "h2 = snd (fetchNews_hook_begin ''Sports'' '''' False 0 (None :: nat response option) h1)"
  define dA :: "nat response" where
    "dA = \<lparr>resp_articles = Some [1], totalResults = Some 1, page = Some 1,
           pageSize = Some 20, fromCache = None\<rparr>"
  define dB :: "nat response" where
    "dB = \<lparr>resp_articles = Some [7, 8], totalResults = Some 2, page = Some 1,
           pageSize = Some 20, fromCache = None\<rparr>"
  have ne: "(''Technology'', '''') \<noteq> (''Sports'', '''')" by simp
  have bA: "fetchNews_hook_begin ''Technology'' '''' False 0 (None :: nat response option) h0 = (callA, h1)"
    by (simp add: callA_def h1_def)
  have bB: "fetchNews_hook_begin ''Sports'' '''' False 0 (None :: nat response option) h1 = (callB, h2)"
    by (simp add: callB_def h2_def)
  from stale_response_discarded [OF ne bA bB, of "Data dA" "Data dB"]
  have "fetchNews_hook_settled callA (Data dA) (fetchNews_hook_settled callB (Data dB) h2)
          = fetchNews_hook_settled callB (Data dB) h2"
    and "articles (fetchNews_hook_settled callB (Data dB) h2) = or_empty (resp_articles dB)"
    by blast+
  then have "articles (fetchNews_hook_settled callA (Data dA) (fetchNews_hook_settled callB (Data dB) h2))
          = [7, 8]"
    by (simp add: dB_def)
  then have "articles (fetchNews_hook_settled
          (fst (fetchNews_hook_begin ''Technology'' '''' False 0 (None :: nat response option) (initial_hook ''Technology'' '''' :: nat hook)))
          (Data \<lparr>resp_articles = Some [1::nat], totalResults = Some 1, page = Some 1,
                  pageSize = Some 20, fromCache = None\<rparr>)
          (fetchNews_hook_settled
             (fst (fetchNews_hook_begin ''Sports'' '''' False 0 (None :: nat response option)
                (snd (fetchNews_hook_begin ''Technology'' '''' False 0 (None :: nat response option)
                       (initial_hook ''Technology'' '''' :: nat hook)))))
             (Data \<lparr>resp_articles = Some [7, 8], totalResults = Some 2, page = Some 1,
                     pageSize = Some 20, fromCache = None\<rparr>)
             (snd (fetchNews_hook_begin ''Sports'' '''' False 0 (None :: nat response option)
                (snd (fetchNews_hook_begin ''Technology'' '''' False 0 (None :: nat response option)
                       (initial_hook ''Technology'' '''' :: nat hook)))))))
     = [7, 8]"
    unfolding callA_def callB_def h1_def h2_def h0_def dA_def dB_def .
  with ne show ?thesis by (rule conjI)
qed




end
